theory Spec2Isabelle
  imports Main "HOL-Library.Word"
begin

section \<open>The enproxy Conn interface (conn\_intf.go)\<close>

text \<open>
  The file embeds the declarations and methods of \<^verbatim>\<open>conn_intf.go\<close>: the header
  names, the default durations, the \<^verbatim>\<open>Conn\<close> struct and its \<^verbatim>\<open>net.Conn\<close> methods.
  Methods that mutate the receiver take the Conn and return the updated one. The
  helpers \<^verbatim>\<open>submitWrite\<close> and \<^verbatim>\<open>submitRead\<close> are called by \<^verbatim>\<open>Write\<close> and
  \<^verbatim>\<open>Read\<close> but defined in another file; they are parameters of the model.
\<close>

subsection \<open>Constants\<close>

definition X_HTTPCONN_ID :: string where
  "X_HTTPCONN_ID = ''X-HTTPConn-Id''"

definition X_HTTPCONN_DEST_ADDR :: string where
  "X_HTTPCONN_DEST_ADDR = ''X-HTTPConn-Dest-Addr''"

definition X_HTTPCONN_EOF :: string where
  "X_HTTPCONN_EOF = ''X-HTTPConn-EOF''"

definition X_HTTPCONN_PROXY_HOST :: string where
  "X_HTTPCONN_PROXY_HOST = ''X-HTTPConn-Proxy-Host''"

text \<open>
  The header table of the specification (section 6), row by row, in the words of the
  specification; the constants above are compared with it.
\<close>

definition spec_header_table :: "string list" where
  "spec_header_table =
     [''X-HTTPConn-Id'', ''X-HTTPConn-Dest-Addr'', ''X-HTTPConn-Proxy-Host'', ''X-HTTPConn-EOF'']"

text \<open>
  Go's \<^verbatim>\<open>time.Duration\<close> is an \<^verbatim>\<open>int64\<close> count of nanoseconds; the unit constants
  are those of Go's \<^verbatim>\<open>time\<close> package. Multiplication wraps at 64 bits.
\<close>

type_synonym Duration = "64 word"

definition Nanosecond :: Duration where
  "Nanosecond = 1"

definition Microsecond :: Duration where
  "Microsecond = 1000 * Nanosecond"

definition Millisecond :: Duration where
  "Millisecond = 1000 * Microsecond"

definition Second :: Duration where
  "Second = 1000 * Millisecond"

definition defaultIdleInterval :: Duration where
  "defaultIdleInterval = 15 * Millisecond"

definition defaultIdleTimeout :: Duration where
  "defaultIdleTimeout = 70 * Second"

definition emptyBuffer :: "8 word list" where
  "emptyBuffer = []"

subsection \<open>Errors, responses and channels\<close>

text \<open>
  A Go \<^verbatim>\<open>error\<close> is \<open>None\<close> for \<^verbatim>\<open>nil\<close> and \<open>Some e\<close> otherwise; \<open>EOF\<close> is
  \<^verbatim>\<open>io.EOF\<close>. A \<^verbatim>\<open>panic(msg)\<close> is the left summand of the result.
\<close>

datatype error = EOF | OtherError string

datatype panic = Panic string

text \<open>
  \<^verbatim>\<open>rwResponse\<close> has the fields \<^verbatim>\<open>n\<close> and \<^verbatim>\<open>err\<close>; they are prefixed here, since a
  record field is a constant of the theory.
\<close>

record rwResponse =
  rw_n :: int
  rw_err :: "error option"

text \<open>
  A channel is its history: every value sent on it so far, oldest first, the number of
  them already taken by receivers, and whether it has been closed. Values are received
  in the order they were sent. A receive takes the oldest value not yet taken; when
  there is none it reports the closure of a closed channel (Go's \<^verbatim>\<open>ok = false\<close>) and
  waits on an open one.
\<close>

record 'a chan =
  sent :: "'a list"
  taken :: nat
  chan_closed :: bool

datatype 'a received = Received 'a | ClosedEmpty | Blocked

definition recv :: "'a chan \<Rightarrow> 'a received \<times> 'a chan" where
  "recv ch =
     (if taken ch < length (sent ch)
      then (Received (sent ch ! taken ch), ch\<lparr>taken := Suc (taken ch)\<rparr>)
      else if chan_closed ch then (ClosedEmpty, ch)
      else (Blocked, ch))"

text \<open>
  The three stop channels are \<^verbatim>\<open>chan interface{}\<close>; the only operation of this file on
  them is the send of \<^verbatim>\<open>nil\<close> in \<^verbatim>\<open>Close\<close>, and nothing in the file closes them. A stop
  channel is modelled by the values sent on it so far; a send is recorded when it
  completes.
\<close>

datatype iface = IfaceNil

type_synonym stopChan = "iface list"

definition send :: "stopChan \<Rightarrow> iface \<Rightarrow> stopChan" where
  "send ch v = ch @ [v]"

subsection \<open>The Conn\<close>

text \<open>
  The fields of the struct that carry data of the connection, its channels and its
  flags. The field \<^verbatim>\<open>id\<close> is \<open>conn_id\<close>. The mutexes appear in the step sequences
  below; the pipe and response handles, the configuration pointer and the activity
  time are neither read nor written by the methods of this file.
\<close>

record Conn =
  Addr :: string
  conn_id :: string
  writeRequestsCh :: "8 word list chan"
  writeResponsesCh :: "rwResponse chan"
  stopWriteCh :: stopChan
  doneWriting :: bool
  readRequestsCh :: "8 word list chan"
  readResponsesCh :: "rwResponse chan"
  stopReadCh :: stopChan
  doneReading :: bool
  stopReqCh :: stopChan
  doneRequesting :: bool
  closed :: bool

type_synonym Time = int

type_synonym net_Addr = string

text \<open>
  A submit helper gets the Conn and the caller's bytes and answers whether the
  submission was accepted, with the Conn as it stands when the caller goes on.
\<close>

type_synonym submit = "Conn \<Rightarrow> 8 word list \<Rightarrow> bool \<times> Conn"

text \<open>What a call of \<^verbatim>\<open>Write\<close> or \<^verbatim>\<open>Read\<close> does: return \<open>(n, err)\<close>, or wait.\<close>

datatype call = Returns int "error option" | Waits

subsection \<open>The methods\<close>

definition LocalAddr :: "Conn \<Rightarrow> panic + net_Addr" where
  "LocalAddr c = Inl (Panic ''LocalAddr() not implemented'')"

definition RemoteAddr :: "Conn \<Rightarrow> panic + net_Addr" where
  "RemoteAddr c = Inl (Panic ''RemoteAddr() not implemented'')"

definition Write :: "submit \<Rightarrow> Conn \<Rightarrow> 8 word list \<Rightarrow> call \<times> Conn" where
  "Write submitWrite c b =
     (case submitWrite c b of
        (True, c1) \<Rightarrow>
          (case recv (writeResponsesCh c1) of
             (Received res, ch) \<Rightarrow> (Returns (rw_n res) (rw_err res), c1\<lparr>writeResponsesCh := ch\<rparr>)
           | (ClosedEmpty, ch) \<Rightarrow> (Returns 0 (Some EOF), c1)
           | (Blocked, ch) \<Rightarrow> (Waits, c1))
      | (False, c1) \<Rightarrow> (Returns 0 (Some EOF), c1))"

definition Read :: "submit \<Rightarrow> Conn \<Rightarrow> 8 word list \<Rightarrow> call \<times> Conn" where
  "Read submitRead c b =
     (case submitRead c b of
        (True, c1) \<Rightarrow>
          (case recv (readResponsesCh c1) of
             (Received res, ch) \<Rightarrow> (Returns (rw_n res) (rw_err res), c1\<lparr>readResponsesCh := ch\<rparr>)
           | (ClosedEmpty, ch) \<Rightarrow> (Returns 0 (Some EOF), c1)
           | (Blocked, ch) \<Rightarrow> (Waits, c1))
      | (False, c1) \<Rightarrow> (Returns 0 (Some EOF), c1))"

definition Close :: "Conn \<Rightarrow> error option \<times> Conn" where
  "Close c =
     (if \<not> closed c
      then (None, c\<lparr>stopReadCh := send (stopReadCh c) IfaceNil,
                     stopWriteCh := send (stopWriteCh c) IfaceNil,
                     stopReqCh := send (stopReqCh c) IfaceNil,
                     closed := True\<rparr>)
      else (None, c))"

definition isClosed :: "Conn \<Rightarrow> bool" where
  "isClosed c = closed c"

definition SetDeadline :: "Conn \<Rightarrow> Time \<Rightarrow> panic + error option" where
  "SetDeadline c t = Inl (Panic ''SetDeadline not implemented'')"

definition SetReadDeadline :: "Conn \<Rightarrow> Time \<Rightarrow> panic + error option" where
  "SetReadDeadline c t = Inl (Panic ''SetReadDeadline not implemented'')"

definition SetWriteDeadline :: "Conn \<Rightarrow> Time \<Rightarrow> panic + error option" where
  "SetWriteDeadline c t = Inl (Panic ''SetWriteDeadline not implemented'')"

subsection \<open>The steps of the locking methods\<close>

text \<open>
  \<^verbatim>\<open>Close\<close> and \<^verbatim>\<open>isClosed\<close> are the two methods of the file that take a lock, both
  on \<^verbatim>\<open>closedMutex\<close>. Their bodies as the sequence of steps one call performs, in
  program order; the deferred unlock runs last, at the return.
\<close>

datatype stop_name = StopRead | StopWrite | StopReq

datatype step = Lock | Unlock | RLock | RUnlock | Send stop_name | SetClosed

definition Close_steps :: "Conn \<Rightarrow> step list" where
  "Close_steps c =
     [Lock] @
     (if \<not> closed c then [Send StopRead, Send StopWrite, Send StopReq, SetClosed] else []) @
     [Unlock]"


text \<open>The effect of one step on the Conn; taking and releasing the lock leave it as it is.\<close>

fun exec_step :: "Conn \<Rightarrow> step \<Rightarrow> Conn" where
  "exec_step c (Send StopRead) = c\<lparr>stopReadCh := send (stopReadCh c) IfaceNil\<rparr>"
| "exec_step c (Send StopWrite) = c\<lparr>stopWriteCh := send (stopWriteCh c) IfaceNil\<rparr>"
| "exec_step c (Send StopReq) = c\<lparr>stopReqCh := send (stopReqCh c) IfaceNil\<rparr>"
| "exec_step c SetClosed = c\<lparr>closed := True\<rparr>"
| "exec_step c Lock = c"
| "exec_step c Unlock = c"
| "exec_step c RLock = c"
| "exec_step c RUnlock = c"


subsection \<open>Sequences of calls\<close>

text \<open>
  The calls a Conn receives over its lifetime, one after the other. \<^verbatim>\<open>Close\<close>
  serialises itself by its lock; a \<^verbatim>\<open>Write\<close> or \<^verbatim>\<open>Read\<close> that waits leaves the Conn as
  its submit helper left it.
\<close>

datatype op = OpWrite "8 word list" | OpRead "8 word list" | OpClose | OpIsClosed

fun apply_op :: "submit \<Rightarrow> submit \<Rightarrow> Conn \<Rightarrow> op \<Rightarrow> Conn" where
  "apply_op sw sr c (OpWrite b) = snd (Write sw c b)"
| "apply_op sw sr c (OpRead b) = snd (Read sr c b)"
| "apply_op sw sr c OpClose = snd (Close c)"
| "apply_op sw sr c OpIsClosed = c"

fun run :: "submit \<Rightarrow> submit \<Rightarrow> op list \<Rightarrow> Conn \<Rightarrow> Conn" where
  "run sw sr [] c = c"
| "run sw sr (x # xs) c = run sw sr xs (apply_op sw sr c x)"

text \<open>
  One caller writing the slices of a list in turn: the outcome of every call, in call
  order. A call that waits is the caller's last.
\<close>

fun Writes :: "submit \<Rightarrow> Conn \<Rightarrow> 8 word list list \<Rightarrow> call list \<times> Conn" where
  "Writes sw c [] = ([], c)"
| "Writes sw c (b # bs) =
     (case Write sw c b of
        (Waits, c1) \<Rightarrow> ([Waits], c1)
      | (Returns k e, c1) \<Rightarrow> (case Writes sw c1 bs of (rs, c2) \<Rightarrow> (Returns k e # rs, c2)))"

subsection \<open>Inputs of the examples\<close>

text \<open>
  A Conn right after its channels are made: nothing sent, nothing taken, no flag set.
\<close>

definition new_chan :: "'a chan" where
  "new_chan = \<lparr>sent = [], taken = 0, chan_closed = False\<rparr>"

definition fresh_Conn :: Conn where
  "fresh_Conn =
     \<lparr>Addr = ''example.org:443'', conn_id = ''conn-1'',
      writeRequestsCh = new_chan, writeResponsesCh = new_chan, stopWriteCh = [],
      doneWriting = False,
      readRequestsCh = new_chan, readResponsesCh = new_chan, stopReadCh = [],
      doneReading = False,
      stopReqCh = [], doneRequesting = False, closed = False\<rparr>"

text \<open>
  Two submit helpers for the examples: one that refuses every submission, and one
  that accepts and has the processor acknowledge the slice with \<open>(len(b), nil)\<close> on
  the given response channel before the caller receives.
\<close>

definition refuse :: submit where
  "refuse c b = (False, c)"

definition ack_write :: submit where
  "ack_write c b =
     (True, c\<lparr>writeResponsesCh := (writeResponsesCh c)
        \<lparr>sent := sent (writeResponsesCh c) @ [\<lparr>rw_n = int (length b), rw_err = None\<rparr>]\<rparr>\<rparr>)"

definition accept :: submit where
  "accept c b = (True, c)"




subsection \<open>What the statements assume of the submit helpers\<close>


definition keeps_closing :: "submit \<Rightarrow> bool" where
  "keeps_closing s =
     (\<forall>c b. closed (snd (s c b)) = closed c \<and>
        stopReadCh (snd (s c b)) = stopReadCh c \<and>
        stopWriteCh (snd (s c b)) = stopWriteCh c \<and>
        stopReqCh (snd (s c b)) = stopReqCh c)"

definition feeds_responses :: "submit \<Rightarrow> bool" where
  "feeds_responses sw =
     (\<forall>c b. fst (sw c b) \<and>
        chan_closed (writeResponsesCh (snd (sw c b))) = chan_closed (writeResponsesCh c) \<and>
        taken (writeResponsesCh (snd (sw c b))) = taken (writeResponsesCh c) \<and>
        (\<exists>ys. sent (writeResponsesCh (snd (sw c b))) = sent (writeResponsesCh c) @ ys))"

text \<open>
  The pair \<open>(n, err)\<close> of a response as the outcome of the call that returns it, and
  the calls of a sequence that have returned.
\<close>

definition pair_of :: "rwResponse \<Rightarrow> call" where
  "pair_of res = Returns (rw_n res) (rw_err res)"

definition completed :: "call list \<Rightarrow> call list" where
  "completed rs = filter (\<lambda>r. r \<noteq> Waits) rs"

section \<open>Properties\<close>

subsection \<open>Receiving\<close>


lemma Write_received:
  assumes "fst (sw c b)"
    and "taken (writeResponsesCh (snd (sw c b))) < length (sent (writeResponsesCh (snd (sw c b))))"
  shows "Write sw c b =
      (pair_of (sent (writeResponsesCh (snd (sw c b))) ! taken (writeResponsesCh (snd (sw c b)))),
       (snd (sw c b))\<lparr>writeResponsesCh :=
          (writeResponsesCh (snd (sw c b)))\<lparr>taken := Suc (taken (writeResponsesCh (snd (sw c b))))\<rparr>\<rparr>)"
  using assms by (cases "sw c b") (simp add: Write_def recv_def pair_of_def)

lemma Write_waits:
  assumes "fst (sw c b)"
    and "\<not> taken (writeResponsesCh (snd (sw c b))) < length (sent (writeResponsesCh (snd (sw c b))))"
    and "\<not> chan_closed (writeResponsesCh (snd (sw c b)))"
  shows "Write sw c b = (Waits, snd (sw c b))"
  using assms by (cases "sw c b") (simp add: Write_def recv_def)

text \<open>
  \<^verbatim>\<open>Write\<close> and \<^verbatim>\<open>Read\<close> themselves touch one field of the Conn, the response channel
  they receive from; the flag and the stop channels are as the helper left them.
\<close>

lemma Write_fields:
  "closed (snd (Write sw c b)) = closed (snd (sw c b))"
  "stopReadCh (snd (Write sw c b)) = stopReadCh (snd (sw c b))"
  "stopWriteCh (snd (Write sw c b)) = stopWriteCh (snd (sw c b))"
  "stopReqCh (snd (Write sw c b)) = stopReqCh (snd (sw c b))"
  by (cases "sw c b"; auto simp: Write_def split: prod.splits received.splits bool.splits)+

lemma Read_fields:
  "closed (snd (Read sr c b)) = closed (snd (sr c b))"
  "stopReadCh (snd (Read sr c b)) = stopReadCh (snd (sr c b))"
  "stopWriteCh (snd (Read sr c b)) = stopWriteCh (snd (sr c b))"
  "stopReqCh (snd (Read sr c b)) = stopReqCh (snd (sr c b))"
  by (cases "sr c b"; auto simp: Read_def split: prod.splits received.splits bool.splits)+

subsection \<open>The steps of Close are its effect\<close>

lemma Close_steps_run: "foldl exec_step c (Close_steps c) = snd (Close c)"
  by (simp add: Close_steps_def Close_def)

subsection \<open>End of stream for callers\<close>











subsection \<open>Close\<close>

text \<open>
  Claim C2. \<^verbatim>\<open>Close\<close> is idempotent. On a Conn that is not closed it sends one signal on
  each of the three stop channels and sets the closed flag, changing nothing else. On a
  Conn that is closed it sends nothing and leaves the Conn as it is. After any call
  the Conn is closed, so a second call is of the latter kind: it returns the same result
  and the same Conn as the first.
\<close>

theorem Close_idempotent:
  "(\<not> closed c \<longrightarrow>
      Close c = (None, c\<lparr>stopReadCh := stopReadCh c @ [IfaceNil],
                          stopWriteCh := stopWriteCh c @ [IfaceNil],
                          stopReqCh := stopReqCh c @ [IfaceNil],
                          closed := True\<rparr>)) \<and>
   (closed c \<longrightarrow> Close c = (None, c)) \<and>
   closed (snd (Close c)) \<and>
   Close (snd (Close c)) = (None, snd (Close c)) \<and>
   Close (snd (Close c)) = Close c"
  by (simp add: Close_def send_def)

text \<open>The statement at a fresh Conn, and at the Conn the first call leaves.\<close>

theorem Close_idempotent_witness:
  "\<not> closed fresh_Conn \<and>
   Close fresh_Conn =
     (None, fresh_Conn\<lparr>stopReadCh := [IfaceNil], stopWriteCh := [IfaceNil],
        stopReqCh := [IfaceNil], closed := True\<rparr>) \<and>
   closed (snd (Close fresh_Conn)) \<and>
   Close (snd (Close fresh_Conn)) = (None, snd (Close fresh_Conn)) \<and>
   Close (snd (Close fresh_Conn)) = Close fresh_Conn"
  using Close_idempotent [of fresh_Conn] Close_idempotent [of "snd (Close fresh_Conn)"]
  by (simp add: fresh_Conn_def)

text \<open>
  Once the Conn is closed, no sequence of calls changes the flag or sends on a stop
  channel, if the submit helpers keep them.
\<close>

lemma run_closed_stop:
  assumes "keeps_closing sw" "keeps_closing sr" "closed c"
  shows "closed (run sw sr ops c) \<and> stopReadCh (run sw sr ops c) = stopReadCh c \<and>
     stopWriteCh (run sw sr ops c) = stopWriteCh c \<and> stopReqCh (run sw sr ops c) = stopReqCh c"
  using assms(3)
proof (induction ops arbitrary: c)
  case Nil
  then show ?case by simp
next
  case (Cons x xs)
  have "closed (apply_op sw sr c x) \<and> stopReadCh (apply_op sw sr c x) = stopReadCh c \<and>
     stopWriteCh (apply_op sw sr c x) = stopWriteCh c \<and> stopReqCh (apply_op sw sr c x) = stopReqCh c"
    using Cons.prems assms(1,2)
    by (cases x) (simp_all add: Write_fields Read_fields keeps_closing_def Close_def)
  with Cons.IH [of "apply_op sw sr c x"] show ?case by simp
qed

lemma keeps_closing_examples: "keeps_closing ack_write" "keeps_closing refuse" "keeps_closing accept"
  by (simp_all add: keeps_closing_def ack_write_def refuse_def accept_def)

text \<open>
  Claim C3. Over any sequence of calls on a Conn that starts not closed and in which
  \<^verbatim>\<open>Close\<close> is called at least once, however often, each of \<^verbatim>\<open>stopReadCh\<close>,
  \<^verbatim>\<open>stopWriteCh\<close> and \<^verbatim>\<open>stopReqCh\<close> gets exactly one signal more than it had: the
  first \<^verbatim>\<open>Close\<close> sends it and no later call sends another. The submit helpers of the
  interleaved \<^verbatim>\<open>Write\<close> and \<^verbatim>\<open>Read\<close> calls are assumed to keep the flag and the stop
  channels.
\<close>

theorem stop_channels_signalled_once:
  assumes "keeps_closing sw" "keeps_closing sr" "\<not> closed c" "OpClose \<in> set ops"
  shows "stopReadCh (run sw sr ops c) = stopReadCh c @ [IfaceNil] \<and>
     stopWriteCh (run sw sr ops c) = stopWriteCh c @ [IfaceNil] \<and>
     stopReqCh (run sw sr ops c) = stopReqCh c @ [IfaceNil]"
  using assms(3,4)
proof (induction ops arbitrary: c)
  case Nil
  then show ?case by simp
next
  case (Cons x xs)
  show ?case
  proof (cases "x = OpClose")
    case True
    let ?c1 = "snd (Close c)"
    have "closed ?c1" by (simp add: Close_def)
    from run_closed_stop [OF assms(1,2) this, of xs] Cons.prems(1) True
    show ?thesis by (simp add: Close_def send_def)
  next
    case False
    let ?c1 = "apply_op sw sr c x"
    have same: "\<not> closed ?c1 \<and> stopReadCh ?c1 = stopReadCh c \<and>
        stopWriteCh ?c1 = stopWriteCh c \<and> stopReqCh ?c1 = stopReqCh c"
      using False Cons.prems(1) assms(1,2)
      by (cases x) (simp_all add: Write_fields Read_fields keeps_closing_def)
    moreover have "OpClose \<in> set xs" using False Cons.prems(2) by auto
    ultimately show ?thesis using Cons.IH [of ?c1] by simp
  qed
qed

text \<open>The statement at a fresh Conn and a sequence of six calls, three of them \<^verbatim>\<open>Close\<close>.\<close>

theorem stop_channels_signalled_once_witness:
  "\<not> closed fresh_Conn \<and>
   OpClose \<in> set [OpWrite [1], OpClose, OpRead [2, 3], OpClose, OpIsClosed, OpClose] \<and>
   stopReadCh (run ack_write refuse
     [OpWrite [1], OpClose, OpRead [2, 3], OpClose, OpIsClosed, OpClose] fresh_Conn) = [IfaceNil] \<and>
   stopWriteCh (run ack_write refuse
     [OpWrite [1], OpClose, OpRead [2, 3], OpClose, OpIsClosed, OpClose] fresh_Conn) = [IfaceNil] \<and>
   stopReqCh (run ack_write refuse
     [OpWrite [1], OpClose, OpRead [2, 3], OpClose, OpIsClosed, OpClose] fresh_Conn) = [IfaceNil]"
proof -
  have open0: "\<not> closed fresh_Conn" and empty0: "stopReadCh fresh_Conn = []"
    "stopWriteCh fresh_Conn = []" "stopReqCh fresh_Conn = []"
    by (simp_all add: fresh_Conn_def)
  have mem: "OpClose \<in> set [OpWrite [1], OpClose, OpRead [2, 3], OpClose, OpIsClosed, OpClose]"
    by simp
  from stop_channels_signalled_once [OF keeps_closing_examples(1,2) open0 mem] open0 mem empty0
  show ?thesis by simp
qed

text \<open>
  Claim C5. The closed flag never goes back from true to false: once \<^verbatim>\<open>isClosed\<close>
  answers true, it answers true after every further sequence of \<^verbatim>\<open>Write\<close>, \<^verbatim>\<open>Read\<close>,
  \<^verbatim>\<open>Close\<close> and \<^verbatim>\<open>isClosed\<close> calls. \<^verbatim>\<open>Write\<close> and \<^verbatim>\<open>Read\<close> leave the flag to their
  submit helpers, which are assumed not to reset it.
\<close>

theorem closed_monotonic:
  assumes "\<forall>c b. closed c \<longrightarrow> closed (snd (sw c b))"
    and "\<forall>c b. closed c \<longrightarrow> closed (snd (sr c b))"
    and "isClosed c"
  shows "isClosed (run sw sr ops c)"
  using assms(3)
proof (induction ops arbitrary: c)
  case Nil
  then show ?case by simp
next
  case (Cons x xs)
  have "isClosed (apply_op sw sr c x)"
    using Cons.prems assms(1,2)
    by (cases x) (simp_all add: isClosed_def Write_fields Read_fields Close_def)
  then show ?case using Cons.IH by simp
qed

text \<open>The statement at the Conn a \<^verbatim>\<open>Close\<close> leaves, followed by five calls.\<close>

theorem closed_monotonic_witness:
  "isClosed (snd (Close fresh_Conn)) \<and>
   isClosed (run ack_write accept [OpWrite [7], OpRead [], OpClose, OpIsClosed, OpWrite []]
     (snd (Close fresh_Conn)))"
proof -
  have w: "\<forall>c b. closed c \<longrightarrow> closed (snd (ack_write c b))" by (simp add: ack_write_def)
  have r: "\<forall>c b. closed c \<longrightarrow> closed (snd (accept c b))" by (simp add: accept_def)
  have c: "isClosed (snd (Close fresh_Conn))" by (simp add: isClosed_def Close_def)
  show ?thesis by (rule conjI [OF c closed_monotonic [OF w r c]])
qed

text \<open>
  Claim C10. \<^verbatim>\<open>Close\<close> returns the nil error on every Conn, closed or not, at the
  first call and at every later one.
\<close>

theorem Close_returns_nil:
  "fst (Close c) = None \<and> fst (Close (snd (Close c))) = None"
  by (simp add: Close_def)

subsection \<open>The unimplemented methods\<close>

text \<open>
  Claim C4. \<^verbatim>\<open>LocalAddr\<close>, \<^verbatim>\<open>RemoteAddr\<close>, \<^verbatim>\<open>SetDeadline\<close>, \<^verbatim>\<open>SetReadDeadline\<close> and
  \<^verbatim>\<open>SetWriteDeadline\<close> panic with a message naming the method, on every Conn and for
  every argument: none of them returns a value.
\<close>

theorem unimplemented_methods_panic:
  "LocalAddr c = Inl (Panic ''LocalAddr() not implemented'') \<and>
   RemoteAddr c = Inl (Panic ''RemoteAddr() not implemented'') \<and>
   SetDeadline c t = Inl (Panic ''SetDeadline not implemented'') \<and>
   SetReadDeadline c t = Inl (Panic ''SetReadDeadline not implemented'') \<and>
   SetWriteDeadline c t = Inl (Panic ''SetWriteDeadline not implemented'') \<and>
   (\<forall>a. LocalAddr c \<noteq> Inr a) \<and> (\<forall>a. RemoteAddr c \<noteq> Inr a) \<and>
   (\<forall>e. SetDeadline c t \<noteq> Inr e) \<and> (\<forall>e. SetReadDeadline c t \<noteq> Inr e) \<and>
   (\<forall>e. SetWriteDeadline c t \<noteq> Inr e)"
  by (simp add: LocalAddr_def RemoteAddr_def SetDeadline_def SetReadDeadline_def
      SetWriteDeadline_def)

subsection \<open>Constants\<close>

text \<open>
  Claim C8. The four header names are the strings \<open>X-HTTPConn-Id\<close>,
  \<open>X-HTTPConn-Dest-Addr\<close>, \<open>X-HTTPConn-Proxy-Host\<close> and \<open>X-HTTPConn-EOF\<close>: they are,
  character for character, the four rows of the header table of the specification,
  and no two of them are equal.
\<close>

theorem header_names:
  "X_HTTPCONN_ID = ''X-HTTPConn-Id'' \<and>
   X_HTTPCONN_DEST_ADDR = ''X-HTTPConn-Dest-Addr'' \<and>
   X_HTTPCONN_PROXY_HOST = ''X-HTTPConn-Proxy-Host'' \<and>
   X_HTTPCONN_EOF = ''X-HTTPConn-EOF'' \<and>
   [X_HTTPCONN_ID, X_HTTPCONN_DEST_ADDR, X_HTTPCONN_PROXY_HOST, X_HTTPCONN_EOF]
     = spec_header_table \<and>
   distinct [X_HTTPCONN_ID, X_HTTPCONN_DEST_ADDR, X_HTTPCONN_PROXY_HOST, X_HTTPCONN_EOF]"
  by (simp add: X_HTTPCONN_ID_def X_HTTPCONN_DEST_ADDR_def X_HTTPCONN_PROXY_HOST_def
      X_HTTPCONN_EOF_def spec_header_table_def)

text \<open>
  Claim C9. The default idle interval is 15 milliseconds and the default idle timeout
  is 70 seconds: as signed 64-bit counts of nanoseconds, 15,000,000 and
  70,000,000,000, neither product wrapping around.
\<close>

theorem default_durations:
  "sint defaultIdleInterval = 15 * 1000000 \<and>
   sint defaultIdleTimeout = 70 * 1000000000 \<and>
   sint Millisecond = 1000000 \<and> sint Second = 1000000000"
  by (simp add: defaultIdleInterval_def defaultIdleTimeout_def Second_def Millisecond_def
      Microsecond_def Nanosecond_def)

subsection \<open>Locks and sends\<close>



subsection \<open>Responses in order\<close>

text \<open>
  A caller's writes against a helper that feeds responses, on a channel that is open:
  the channel stays open, its history only grows, and the calls that have returned
  carry, in call order, the responses of the history from the first one not yet taken.
\<close>

lemma Writes_history:
  assumes f: "feeds_responses sw"
  shows "\<not> chan_closed (writeResponsesCh c) \<Longrightarrow>
     \<not> chan_closed (writeResponsesCh (snd (Writes sw c bs))) \<and>
     (\<exists>zs. sent (writeResponsesCh (snd (Writes sw c bs))) = sent (writeResponsesCh c) @ zs) \<and>
     taken (writeResponsesCh c) \<le> taken (writeResponsesCh (snd (Writes sw c bs))) \<and>
     length (completed (fst (Writes sw c bs))) =
       taken (writeResponsesCh (snd (Writes sw c bs))) - taken (writeResponsesCh c) \<and>
     completed (fst (Writes sw c bs)) =
       map pair_of (take (taken (writeResponsesCh (snd (Writes sw c bs))) - taken (writeResponsesCh c))
          (drop (taken (writeResponsesCh c)) (sent (writeResponsesCh (snd (Writes sw c bs))))))"
proof (induction bs arbitrary: c)
  case Nil
  then show ?case by (simp add: completed_def)
next
  case (Cons b bs)
  let ?c1 = "snd (sw c b)"
  let ?t = "taken (writeResponsesCh c)"
  from f Cons.prems have acc: "fst (sw c b)" and op: "\<not> chan_closed (writeResponsesCh ?c1)"
    and tk: "taken (writeResponsesCh ?c1) = ?t"
    by (simp_all add: feeds_responses_def)
  from f obtain ys where ys: "sent (writeResponsesCh ?c1) = sent (writeResponsesCh c) @ ys"
    unfolding feeds_responses_def by blast
  show ?case
  proof (cases "?t < length (sent (writeResponsesCh ?c1))")
    case False
    with Write_waits [of sw c b] acc op tk have "Write sw c b = (Waits, ?c1)" by simp
    then show ?thesis using ys tk op by (simp add: completed_def)
  next
    case True
    let ?c2 = "?c1\<lparr>writeResponsesCh := (writeResponsesCh ?c1)\<lparr>taken := Suc ?t\<rparr>\<rparr>"
    let ?x = "sent (writeResponsesCh ?c1) ! ?t"
    let ?W = "Writes sw ?c2 bs"
    from Write_received [of sw c b] acc True tk
    have w: "Write sw c b = (pair_of ?x, ?c2)" by simp
    then have W: "Writes sw c (b # bs) = (pair_of ?x # fst ?W, snd ?W)"
      by (simp add: pair_of_def split: prod.splits)
    from Cons.IH [of ?c2] op obtain zs where
      op2: "\<not> chan_closed (writeResponsesCh (snd ?W))" and
      zs: "sent (writeResponsesCh (snd ?W)) = sent (writeResponsesCh ?c1) @ zs"
      and le: "Suc ?t \<le> taken (writeResponsesCh (snd ?W))"
      and len: "length (completed (fst ?W)) = taken (writeResponsesCh (snd ?W)) - Suc ?t"
      and rs: "completed (fst ?W) =
         map pair_of (take (taken (writeResponsesCh (snd ?W)) - Suc ?t)
            (drop (Suc ?t) (sent (writeResponsesCh (snd ?W)))))"
      by auto
    let ?S = "sent (writeResponsesCh (snd ?W))"
    have lt: "?t < length ?S" using True zs by simp
    have x: "?S ! ?t = ?x" using True zs by (simp add: nth_append)
    have "take (taken (writeResponsesCh (snd ?W)) - ?t) (drop ?t ?S) =
        ?x # take (taken (writeResponsesCh (snd ?W)) - Suc ?t) (drop (Suc ?t) ?S)"
    proof -
      have "drop ?t ?S = ?x # drop (Suc ?t) ?S"
        using Cons_nth_drop_Suc [OF lt] x by simp
      moreover have "taken (writeResponsesCh (snd ?W)) - ?t = Suc (taken (writeResponsesCh (snd ?W)) - Suc ?t)"
        using le by simp
      ultimately show ?thesis by simp
    qed
    moreover have cons: "completed (pair_of ?x # fst ?W) = pair_of ?x # completed (fst ?W)"
      by (simp add: completed_def pair_of_def)
    ultimately have res: "completed (fst (Writes sw c (b # bs))) =
        map pair_of (take (taken (writeResponsesCh (snd ?W)) - ?t) (drop ?t ?S))"
      using W rs by simp
    have hist: "\<exists>zs'. ?S = sent (writeResponsesCh c) @ zs'"
      using zs ys by simp
    have count: "length (completed (fst (Writes sw c (b # bs)))) =
        taken (writeResponsesCh (snd ?W)) - ?t"
      using W cons len le by simp
    have mono: "?t \<le> taken (writeResponsesCh (snd ?W))"
      using le by simp
    have final: "snd (Writes sw c (b # bs)) = snd ?W"
      using W by simp
    show ?thesis
      unfolding final using op2 hist mono count res unfolding final by blast
  qed
qed

lemma feeds_responses_ack_write: "feeds_responses ack_write"
  by (simp add: feeds_responses_def ack_write_def)

text \<open>
  Claim C7. A \<^verbatim>\<open>Write\<close> whose submission is accepted and whose receive finds a response
  returns exactly the pair \<open>(n, err)\<close> of that response, the oldest one not yet taken,
  and takes that one response and nothing else from the channel. Hence, over the
  writes of a caller whose submissions are accepted and answered on an open channel,
  the number of writes that have returned is the number of responses taken, and the
  k-th write to return gives the pair of the k-th response sent on the channel,
  counted from the first one not yet taken: one response per submission, in order,
  unmodified.
\<close>

theorem Write_returns_responses:
  "(fst (sw c b) \<and>
      taken (writeResponsesCh (snd (sw c b))) < length (sent (writeResponsesCh (snd (sw c b))))
    \<longrightarrow> fst (Write sw c b) =
          Returns (rw_n (sent (writeResponsesCh (snd (sw c b))) ! taken (writeResponsesCh (snd (sw c b)))))
                  (rw_err (sent (writeResponsesCh (snd (sw c b))) ! taken (writeResponsesCh (snd (sw c b))))) \<and>
        sent (writeResponsesCh (snd (Write sw c b))) = sent (writeResponsesCh (snd (sw c b))) \<and>
        taken (writeResponsesCh (snd (Write sw c b))) = Suc (taken (writeResponsesCh (snd (sw c b))))) \<and>
   (feeds_responses sw \<and> \<not> chan_closed (writeResponsesCh c)
    \<longrightarrow> length (completed (fst (Writes sw c bs))) =
          taken (writeResponsesCh (snd (Writes sw c bs))) - taken (writeResponsesCh c) \<and>
        completed (fst (Writes sw c bs)) =
          map (\<lambda>res. Returns (rw_n res) (rw_err res))
            (take (length (completed (fst (Writes sw c bs))))
               (drop (taken (writeResponsesCh c)) (sent (writeResponsesCh (snd (Writes sw c bs)))))))"
proof (intro conjI impI)
  assume a: "fst (sw c b) \<and>
      taken (writeResponsesCh (snd (sw c b))) < length (sent (writeResponsesCh (snd (sw c b))))"
  from Write_received [of sw c b] a
  show "fst (Write sw c b) =
          Returns (rw_n (sent (writeResponsesCh (snd (sw c b))) ! taken (writeResponsesCh (snd (sw c b)))))
                  (rw_err (sent (writeResponsesCh (snd (sw c b))) ! taken (writeResponsesCh (snd (sw c b)))))"
    and "sent (writeResponsesCh (snd (Write sw c b))) = sent (writeResponsesCh (snd (sw c b)))"
    and "taken (writeResponsesCh (snd (Write sw c b))) = Suc (taken (writeResponsesCh (snd (sw c b))))"
    by (simp_all add: pair_of_def)
next
  assume h: "feeds_responses sw \<and> \<not> chan_closed (writeResponsesCh c)"
  then have f: "feeds_responses sw" and o: "\<not> chan_closed (writeResponsesCh c)" by simp_all
  from Writes_history [OF f o, of bs]
  show "length (completed (fst (Writes sw c bs))) =
          taken (writeResponsesCh (snd (Writes sw c bs))) - taken (writeResponsesCh c)"
    by blast
  have p: "pair_of = (\<lambda>res. Returns (rw_n res) (rw_err res))"
    by (rule ext) (simp add: pair_of_def)
  from Writes_history [OF f o, of bs]
  show "completed (fst (Writes sw c bs)) =
          map (\<lambda>res. Returns (rw_n res) (rw_err res))
            (take (length (completed (fst (Writes sw c bs))))
               (drop (taken (writeResponsesCh c)) (sent (writeResponsesCh (snd (Writes sw c bs))))))"
    unfolding p by metis
qed

text \<open>
  The statement at three writes of 2, 1 and 0 bytes on a fresh Conn, each acknowledged
  by the processor with the length of its slice.
\<close>

theorem Write_returns_responses_witness:
  "fst (ack_write fresh_Conn [104, 105]) \<and>
   \<not> chan_closed (writeResponsesCh fresh_Conn) \<and>
   fst (Write ack_write fresh_Conn [104, 105]) = Returns 2 None \<and>
   completed (fst (Writes ack_write fresh_Conn [[104, 105], [33], []])) =
     [Returns 2 None, Returns 1 None, Returns 0 None] \<and>
   sent (writeResponsesCh (snd (Writes ack_write fresh_Conn [[104, 105], [33], []]))) =
     [\<lparr>rw_n = 2, rw_err = None\<rparr>, \<lparr>rw_n = 1, rw_err = None\<rparr>, \<lparr>rw_n = 0, rw_err = None\<rparr>]"
proof -
  have o: "\<not> chan_closed (writeResponsesCh fresh_Conn)"
    by (simp add: fresh_Conn_def new_chan_def)
  have a: "fst (ack_write fresh_Conn [104, 105])" by (simp add: ack_write_def)
  have s: "sent (writeResponsesCh (snd (Writes ack_write fresh_Conn [[104, 105], [33], []]))) =
     [\<lparr>rw_n = 2, rw_err = None\<rparr>, \<lparr>rw_n = 1, rw_err = None\<rparr>, \<lparr>rw_n = 0, rw_err = None\<rparr>]"
    and t: "taken (writeResponsesCh (snd (Writes ack_write fresh_Conn [[104, 105], [33], []]))) = 3"
    and t0: "taken (writeResponsesCh fresh_Conn) = 0"
    and s1: "sent (writeResponsesCh (snd (ack_write fresh_Conn [104, 105]))) = [\<lparr>rw_n = 2, rw_err = None\<rparr>]"
    and t1: "taken (writeResponsesCh (snd (ack_write fresh_Conn [104, 105]))) = 0"
    by (simp_all add: Write_def recv_def ack_write_def fresh_Conn_def new_chan_def)
  from Write_returns_responses [of ack_write fresh_Conn "[104, 105]" "[[104, 105], [33], []]"]
    feeds_responses_ack_write o a s t t0 s1 t1
  show ?thesis
    by (simp add: Write_def recv_def ack_write_def fresh_Conn_def new_chan_def completed_def)
qed

end
